theory Spec2Isabelle
  imports Complex_Main
begin

section \<open>Data model\<close>

text \<open>
  Coordinates and coefficients are modelled as exact reals.  Python computes them in
  binary floating point (and in unbounded integers where both operands are ints), so the
  values of this model are those of the program only where no rounding, overflow,
  infinity or NaN occurs.  The theorems below are therefore about the structure of the
  computation: the order of the in-place updates, which walker reads which position, the
  shape of the states, curves and rings, the exceptions of indexing, and which fields are
  written.  Properties of the computed values are stated on concrete inputs only, whose
  arithmetic is exact in binary floating point as well.

  Walkers are Python objects compared and hashed by identity, and their \<open>position\<close> list
  is mutated in place while other objects hold references to it.  A walker is therefore
  an address (\<open>wid\<close>) into a store of walker objects; every read of
  \<open>w.position\<close> goes through the store, so that aliasing is visible.
\<close>

datatype error = IndexError | ValueError | ZeroDivisionError

type_synonym wid = nat

record Walker =
  start_position :: "real list"
  position :: "real list"

type_synonym store = "wid \<Rightarrow> Walker"

text \<open>\<open>Walker.__init__\<close>: both fields are copies of the argument.\<close>

definition Walker_init :: "real list \<Rightarrow> Walker" where
  "Walker_init p = \<lparr>start_position = p, position = p\<rparr>"

record ColorMap =
  cm_start :: "int list"
  cm_end :: "int list"

text \<open>A state is what \<open>get_current_state\<close> returns: one position per walker.\<close>

type_synonym state = "real list list"

text \<open>
  \<open>curves\<close>: per walker, three coordinate histories.  \<open>rings\<close>: per iteration, three
  coordinate lists.
\<close>

type_synonym vectrices = "real list list list"

text \<open>
  The \<open>walkers\<close> dict of dicts is kept as an association list in insertion order, which
  is the order in which \<open>items()\<close> iterates.  The fields \<open>priv_curves\<close> and
  \<open>priv_rings\<close> are the private attributes behind the two properties; \<open>None\<close> is
  Python's \<open>None\<close>.
\<close>

record WalkingSystem =
  walkers :: "(wid \<times> (wid \<times> real) list) list"
  iterations :: int
  cmap :: ColorMap
  priv_curves :: "vectrices option"
  priv_rings :: "vectrices option"

definition WalkingSystem_init ::
  "(wid \<times> (wid \<times> real) list) list \<Rightarrow> int \<Rightarrow> ColorMap \<Rightarrow> WalkingSystem" where
  "WalkingSystem_init ws n cm =
     \<lparr>walkers = ws, iterations = n, cmap = cm, priv_curves = None, priv_rings = None\<rparr>"

section \<open>walkers.py\<close>

text \<open>Python list indexing with a non-negative index.\<close>

definition getitem :: "'a list \<Rightarrow> nat \<Rightarrow> error + 'a" where
  "getitem xs i = (if i < length xs then Inr (xs ! i) else Inl IndexError)"

text \<open>A \<open>for\<close> loop over a list whose body updates the state and may raise.\<close>

fun for_each :: "('a \<Rightarrow> 's \<Rightarrow> error + 's) \<Rightarrow> 'a list \<Rightarrow> 's \<Rightarrow> error + 's" where
  "for_each body [] s = Inr s"
| "for_each body (x # xs) s =
     (case body x s of Inl e \<Rightarrow> Inl e | Inr s' \<Rightarrow> for_each body xs s')"

definition get_current_state :: "WalkingSystem \<Rightarrow> store \<Rightarrow> state" where
  "get_current_state sys h = map (\<lambda>wr. position (h (fst wr))) (walkers sys)"

text \<open>
  The statement \<open>pos[i] += (related_wlkr.position[i] - pos[i]) * relation\<close>, where
  \<open>pos\<close> is the very list object \<open>wlkr.position\<close>: the write goes to the store, and
  every later read of that walker's position sees it.  The index \<open>i\<close> ranges over
  \<open>range(len(pos))\<close>, so only the read of the related walker's list can be out of range.
\<close>

definition axis_step :: "wid \<Rightarrow> wid \<Rightarrow> real \<Rightarrow> nat \<Rightarrow> store \<Rightarrow> error + store" where
  "axis_step wlkr related relation i h =
     (let pos = position (h wlkr) in
      case getitem (position (h related)) i of
        Inl e \<Rightarrow> Inl e
      | Inr q \<Rightarrow> Inr (h(wlkr := (h wlkr)\<lparr>position := pos[i := pos ! i + (q - pos ! i) * relation]\<rparr>)))"

definition relation_step :: "wid \<Rightarrow> wid \<times> real \<Rightarrow> store \<Rightarrow> error + store" where
  "relation_step wlkr rr h =
     for_each (axis_step wlkr (fst rr) (snd rr)) [0..<length (position (h wlkr))] h"

definition walker_step :: "wid \<times> (wid \<times> real) list \<Rightarrow> store \<Rightarrow> error + store" where
  "walker_step wr h = for_each (relation_step (fst wr)) (snd wr) h"

text \<open>
  \<open>next_state\<close> returns the state read after the loops; the final assignment
  \<open>wlkr.position = pos\<close> stores the object that is already there.
\<close>

definition next_state :: "WalkingSystem \<Rightarrow> store \<Rightarrow> error + store \<times> state" where
  "next_state sys h =
     (case for_each walker_step (walkers sys) h of
        Inl e \<Rightarrow> Inl e
      | Inr h' \<Rightarrow> Inr (h', get_current_state sys h'))"

text \<open>The value a call returns, without the store it leaves behind.\<close>

definition returned :: "error + store \<times> 'a \<Rightarrow> error + 'a" where
  "returned r = map_sum id snd r"

text \<open>
  \<open>states\<close> is a generator.  \<open>states_from k\<close> is the generator with \<open>k\<close> rounds of
  its loop left, driven to exhaustion as a \<open>for\<close> loop does: the list of the values it
  yields, each as it reads at the moment of the yield, and the way it ends, which is the
  store it leaves behind or the exception of a \<open>next_state\<close> call.  The yielded tuples
  hold the walkers' own position lists, so a consumer must read a state before it resumes
  the generator, as \<open>compute_3d_vectrices\<close> does.
\<close>

fun states_from :: "nat \<Rightarrow> WalkingSystem \<Rightarrow> store \<Rightarrow> state list \<times> (error + store)" where
  "states_from 0 sys h = ([], Inr h)"
| "states_from (Suc k) sys h =
     (let st = get_current_state sys h in
      case next_state sys h of
        Inl e \<Rightarrow> ([st], Inl e)
      | Inr hs \<Rightarrow> (let run = states_from k sys (fst hs) in (st # fst run, snd run)))"

text \<open>\<open>range(self.iterations)\<close> is empty for a negative count.\<close>

definition states :: "WalkingSystem \<Rightarrow> store \<Rightarrow> state list \<times> (error + store)" where
  "states sys h = states_from (nat (iterations sys)) sys h"

text \<open>
  The body of the innermost loop of \<open>compute_3d_vectrices\<close>, for walker index \<open>i\<close>,
  coordinate index \<open>j\<close> and \<open>n = len(self.walkers)\<close>:
  \<open>curves[i % n][j % 3].append(coord); ring[j % 3].append(coord)\<close>.
\<close>

definition coord_step ::
  "nat \<Rightarrow> nat \<Rightarrow> nat \<times> real \<Rightarrow> vectrices \<times> real list list \<Rightarrow> error + vectrices \<times> real list list" where
  "coord_step n i jc cr =
     (let curves = fst cr; ring = snd cr; j = fst jc; coord = snd jc in
      if n = 0 then Inl ZeroDivisionError
      else case getitem curves (i mod n) of Inl e \<Rightarrow> Inl e | Inr curve \<Rightarrow>
          (case getitem curve (j mod 3) of Inl e \<Rightarrow> Inl e | Inr axis \<Rightarrow>
          (case getitem ring (j mod 3) of Inl e \<Rightarrow> Inl e | Inr ring_axis \<Rightarrow>
             Inr (curves[i mod n := curve[j mod 3 := axis @ [coord]]],
                  ring[j mod 3 := ring_axis @ [coord]]))))"

definition position_step ::
  "nat \<Rightarrow> nat \<times> real list \<Rightarrow> vectrices \<times> real list list \<Rightarrow> error + vectrices \<times> real list list" where
  "position_step n ip cr = for_each (coord_step n (fst ip)) (enumerate 0 (snd ip)) cr"

text \<open>\<open>ring[i].append(ring[i][0])\<close>\<close>

definition close_axis :: "nat \<Rightarrow> real list list \<Rightarrow> error + real list list" where
  "close_axis i ring =
     (case getitem ring i of Inl e \<Rightarrow> Inl e | Inr ring_axis \<Rightarrow>
     (case getitem ring_axis 0 of Inl e \<Rightarrow> Inl e | Inr x \<Rightarrow> Inr (ring[i := ring_axis @ [x]])))"

text \<open>The body of the loop over the states: it extends \<open>curves\<close> and appends one ring.\<close>

definition state_step :: "nat \<Rightarrow> state \<Rightarrow> vectrices \<times> vectrices \<Rightarrow> error + vectrices \<times> vectrices" where
  "state_step n st cr =
     (let curves = fst cr; rings = snd cr; ring = replicate 3 [] in
      case for_each (position_step n) (enumerate 0 st) (curves, ring) of
        Inl e \<Rightarrow> Inl e
      | Inr cr' \<Rightarrow>
         (case for_each close_axis [0..<length (snd cr')] (snd cr') of
            Inl e \<Rightarrow> Inl e
          | Inr ring' \<Rightarrow> Inr (fst cr', rings @ [ring'])))"

text \<open>
  \<open>compute_3d_vectrices\<close> consumes the generator: each yielded state is processed before
  the generator is resumed, so an exception of the loop body at some state comes before
  an exception of the \<open>next_state\<close> call that follows that state.  On success the two
  private attributes are set and the pair is returned.
\<close>

definition compute_3d_vectrices ::
  "WalkingSystem \<Rightarrow> store \<Rightarrow> error + (store \<times> WalkingSystem) \<times> (vectrices \<times> vectrices)" where
  "compute_3d_vectrices sys h =
     (let n = length (walkers sys);
          curves = replicate n (replicate 3 []);
          run = states sys h in
      case for_each (state_step n) (fst run) (curves, []) of
        Inl e \<Rightarrow> Inl e
      | Inr cr \<Rightarrow>
         (case snd run of
            Inl e \<Rightarrow> Inl e
          | Inr h' \<Rightarrow> Inr ((h', sys\<lparr>priv_curves := Some (fst cr), priv_rings := Some (snd cr)\<rparr>), cr)))"

text \<open>The two read properties.\<close>

definition curves :: "WalkingSystem \<Rightarrow> error + vectrices" where
  "curves sys = (case priv_curves sys of None \<Rightarrow> Inl ValueError | Some c \<Rightarrow> Inr c)"

definition rings :: "WalkingSystem \<Rightarrow> error + vectrices" where
  "rings sys = (case priv_rings sys of None \<Rightarrow> Inl ValueError | Some r \<Rightarrow> Inr r)"

section \<open>Vocabulary of the properties\<close>

text \<open>A caller that invokes \<open>next_state\<close> \<open>k\<close> times in a row.\<close>

fun next_state_times :: "nat \<Rightarrow> WalkingSystem \<Rightarrow> store \<Rightarrow> error + store" where
  "next_state_times 0 sys h = Inr h"
| "next_state_times (Suc k) sys h =
     (case next_state sys h of Inl e \<Rightarrow> Inl e | Inr hs \<Rightarrow> next_state_times k sys (fst hs))"

text \<open>
  No index of a walker's position is out of range in the position of a walker it is
  related to.  This holds in particular when all positions have the same dimension.
\<close>

definition dims_ok :: "WalkingSystem \<Rightarrow> store \<Rightarrow> bool" where
  "dims_ok sys h \<longleftrightarrow>
     (\<forall>wr \<in> set (walkers sys). \<forall>rr \<in> set (snd wr).
        length (position (h (fst wr))) \<le> length (position (h (fst rr))))"

text \<open>Every walker of the system, and every walker one of them is related to, is in 3D.\<close>

definition dims_3 :: "WalkingSystem \<Rightarrow> store \<Rightarrow> bool" where
  "dims_3 sys h \<longleftrightarrow>
     (\<forall>wr \<in> set (walkers sys). length (position (h (fst wr))) = 3 \<and>
        (\<forall>rr \<in> set (snd wr). length (position (h (fst rr))) = 3))"

text \<open>Two stores that agree on every start position and on every dimension.\<close>

definition same_shape :: "store \<Rightarrow> store \<Rightarrow> bool" where
  "same_shape h h' \<longleftrightarrow>
     (\<forall>x. start_position (h' x) = start_position (h x) \<and>
          length (position (h' x)) = length (position (h x)))"

text \<open>
  The shape \<open>curves\<close> has from its creation on: one entry per walker, three axis lists
  in each.
\<close>

definition curves_ok :: "nat \<Rightarrow> vectrices \<Rightarrow> bool" where
  "curves_ok n cs \<longleftrightarrow> length cs = n \<and> (\<forall>c \<in> set cs. length c = 3)"

text \<open>
  A closed ring over \<open>n\<close> walkers: three axis lists, each of \<open>n + 1\<close> coordinates, the
  last one equal to the first (\<open>ring[axis][0] == ring[axis][-1]\<close>).
\<close>

definition ring_ok :: "nat \<Rightarrow> real list list \<Rightarrow> bool" where
  "ring_ok n ring \<longleftrightarrow>
     length ring = 3 \<and>
     (\<forall>axis < 3. length (ring ! axis) = n + 1 \<and> ring ! axis ! 0 = last (ring ! axis))"

text \<open>
  A caller that invokes the three operations in any order, any number of times.  A call of
  \<open>states\<close> stands for creating the generator and exhausting it.
\<close>

datatype call = Call_next_state | Call_states | Call_compute_3d_vectrices

fun do_call :: "call \<Rightarrow> store \<times> WalkingSystem \<Rightarrow> error + store \<times> WalkingSystem" where
  "do_call Call_next_state (h, sys) =
     (case next_state sys h of Inl e \<Rightarrow> Inl e | Inr hs \<Rightarrow> Inr (fst hs, sys))"
| "do_call Call_states (h, sys) =
     (case snd (states sys h) of Inl e \<Rightarrow> Inl e | Inr h' \<Rightarrow> Inr (h', sys))"
| "do_call Call_compute_3d_vectrices (h, sys) =
     (case compute_3d_vectrices sys h of Inl e \<Rightarrow> Inl e | Inr r \<Rightarrow> Inr (fst r))"

section \<open>Concrete systems\<close>

definition blank :: store where
  "blank = (\<lambda>_. Walker_init [])"

definition two_store :: store where
  "two_store = blank(0 := Walker_init [0, 0, 0], 1 := Walker_init [10, 0, 0])"

definition black :: ColorMap where
  "black = \<lparr>cm_start = [0, 0, 0], cm_end = [0, 0, 0]\<rparr>"

definition two_system :: WalkingSystem where
  "two_system = WalkingSystem_init [(0, [(1, 1/2)]), (1, [(0, 1/2)])] 1 black"

definition two_system_rev :: WalkingSystem where
  "two_system_rev = WalkingSystem_init [(1, [(0, 1/2)]), (0, [(1, 1/2)])] 1 black"

definition empty_system :: WalkingSystem where
  "empty_system = WalkingSystem_init [] 1 black"

section \<open>Theorems\<close>

subsection \<open>Loops and frames\<close>

lemma for_each_append:
  "for_each body (xs @ ys) s =
     (case for_each body xs s of Inl e \<Rightarrow> Inl e | Inr s' \<Rightarrow> for_each body ys s')"
  by (induction xs arbitrary: s) (auto split: sum.splits)

lemma for_each_inv:
  assumes "for_each body xs s = Inr s'" and "P s"
    and "\<And>x t t'. x \<in> set xs \<Longrightarrow> P t \<Longrightarrow> body x t = Inr t' \<Longrightarrow> P t'"
  shows "P s'"
  using assms
proof (induction xs arbitrary: s)
  case Nil
  then show ?case by simp
next
  case (Cons x xs)
  from Cons.prems(1) obtain t where t: "body x s = Inr t" and rest: "for_each body xs t = Inr s'"
    by (auto split: sum.splits)
  have "P t" using Cons.prems(3) [of x s t] Cons.prems(2) t by simp
  then show ?case using Cons.IH [OF rest] Cons.prems(3) by (meson list.set_intros(2))
qed

lemma for_each_total:
  assumes "P s"
    and "\<And>x t. x \<in> set xs \<Longrightarrow> P t \<Longrightarrow> \<exists>t'. body x t = Inr t' \<and> P t'"
  shows "\<exists>s'. for_each body xs s = Inr s' \<and> P s'"
  using assms
proof (induction xs arbitrary: s)
  case Nil
  then show ?case by simp
next
  case (Cons x xs)
  from Cons.prems obtain t where t: "body x s = Inr t" "P t"
    by (meson list.set_intros(1))
  from Cons.IH [OF t(2)] Cons.prems(2) obtain s' where "for_each body xs t = Inr s'" "P s'"
    by (meson list.set_intros(2))
  then show ?case using t by simp
qed

lemma same_shape_refl: "same_shape h h"
  by (simp add: same_shape_def)

lemma same_shape_trans: "same_shape h h' \<Longrightarrow> same_shape h' h'' \<Longrightarrow> same_shape h h''"
  by (simp add: same_shape_def)

lemma axis_step_shape: "axis_step w r c i h = Inr h' \<Longrightarrow> same_shape h h'"
  by (auto simp: axis_step_def same_shape_def Let_def split: sum.splits)

lemma relation_step_shape:
  assumes "relation_step w rr h = Inr h'" shows "same_shape h h'"
  using assms unfolding relation_step_def
  by (rule for_each_inv [where P = "same_shape h"])
     (auto intro: same_shape_refl same_shape_trans axis_step_shape)

lemma walker_step_shape:
  assumes "walker_step wr h = Inr h'" shows "same_shape h h'"
  using assms unfolding walker_step_def
  by (rule for_each_inv [where P = "same_shape h"])
     (auto intro: same_shape_refl same_shape_trans relation_step_shape)

lemma walkers_loop_shape:
  assumes "for_each walker_step ws h = Inr h'" shows "same_shape h h'"
  using assms
  by (rule for_each_inv [where P = "same_shape h"])
     (auto intro: same_shape_refl same_shape_trans walker_step_shape)

lemma next_state_shape: "next_state sys h = Inr hs \<Longrightarrow> same_shape h (fst hs)"
  by (auto simp: next_state_def split: sum.splits dest: walkers_loop_shape)

lemma next_state_returns:
  "next_state sys h = Inr hs \<Longrightarrow> snd hs = get_current_state sys (fst hs)"
  by (auto simp: next_state_def split: sum.splits)

lemma next_state_times_shape:
  "next_state_times k sys h = Inr h' \<Longrightarrow> same_shape h h'"
proof (induction k arbitrary: h)
  case 0
  then show ?case by (simp add: same_shape_refl)
next
  case (Suc k)
  then show ?case
    by (auto split: sum.splits dest!: next_state_shape intro: same_shape_trans)
qed

lemma dims_ok_shape: "same_shape h h' \<Longrightarrow> dims_ok sys h \<Longrightarrow> dims_ok sys h'"
  by (simp add: dims_ok_def same_shape_def)

lemma dims_3_shape: "same_shape h h' \<Longrightarrow> dims_3 sys h \<Longrightarrow> dims_3 sys h'"
  by (simp add: dims_3_def same_shape_def)

lemma dims_3_ok: "dims_3 sys h \<Longrightarrow> dims_ok sys h"
  by (auto simp: dims_3_def dims_ok_def)

subsection \<open>Frames of the generator and of the vectorization\<close>

lemma states_from_shape:
  "snd (states_from k sys h) = Inr h' \<Longrightarrow> same_shape h h'"
proof (induction k arbitrary: h)
  case 0
  then show ?case by (simp add: same_shape_refl)
next
  case (Suc k)
  then show ?case
    by (auto simp: Let_def split: sum.splits
             dest!: next_state_shape intro: same_shape_trans)
qed

lemma states_shape: "snd (states sys h) = Inr h' \<Longrightarrow> same_shape h h'"
  by (simp add: states_def states_from_shape)

lemma compute_3d_vectrices_shape:
  "compute_3d_vectrices sys h = Inr r \<Longrightarrow> same_shape h (fst (fst r))"
  by (auto simp: compute_3d_vectrices_def Let_def split: sum.splits dest: states_shape)

lemma do_call_shape:
  "do_call c hs = Inr hs' \<Longrightarrow> same_shape (fst hs) (fst hs')"
  by (cases c; cases hs)
     (auto split: sum.splits
           dest: next_state_shape states_shape compute_3d_vectrices_shape)

lemma calls_shape:
  assumes "for_each do_call cs hs = Inr hs'"
  shows "same_shape (fst hs) (fst hs')"
  using assms
  by (rule for_each_inv [where P = "\<lambda>t. same_shape (fst hs) (fst t)"])
     (auto intro: same_shape_refl same_shape_trans do_call_shape)

lemma do_call_keeps_system:
  "c \<noteq> Call_compute_3d_vectrices \<Longrightarrow> do_call c hs = Inr hs' \<Longrightarrow> snd hs' = snd hs"
  by (cases c; cases hs) (auto split: sum.splits)

lemma calls_keep_system:
  assumes "for_each do_call cs hs = Inr hs'" and "Call_compute_3d_vectrices \<notin> set cs"
  shows "snd hs' = snd hs"
  using assms(1)
proof (rule for_each_inv [where P = "\<lambda>t. snd t = snd hs"])
  show "snd hs = snd hs" ..
next
  fix c t t' assume "c \<in> set cs" "snd t = snd hs" "do_call c t = Inr t'"
  with assms(2) show "snd t' = snd hs"
    using do_call_keeps_system [of c t t'] by auto
qed

subsection \<open>Calls that cannot fail\<close>

lemma axis_step_total:
  assumes "i < length (position (h r))"
  shows "\<exists>h'. axis_step w r c i h = Inr h' \<and> same_shape h h'"
proof -
  from assms obtain h' where "axis_step w r c i h = Inr h'"
    by (simp add: axis_step_def getitem_def Let_def)
  then show ?thesis using axis_step_shape by blast
qed

lemma relation_step_total:
  assumes "length (position (h w)) \<le> length (position (h (fst rr)))"
  shows "\<exists>h'. relation_step w rr h = Inr h' \<and> same_shape h h'"
  unfolding relation_step_def
proof (rule for_each_total [where P = "same_shape h"])
  show "same_shape h h" by (rule same_shape_refl)
next
  fix i t
  assume i: "i \<in> set [0..<length (position (h w))]" and t: "same_shape h t"
  then have "i < length (position (t (fst rr)))"
    using assms by (simp add: same_shape_def)
  from axis_step_total [where h = t and r = "fst rr", OF this] t
  show "\<exists>t'. axis_step w (fst rr) (snd rr) i t = Inr t' \<and> same_shape h t'"
    by (blast intro: same_shape_trans)
qed

lemma walker_step_total:
  assumes "\<forall>rr \<in> set (snd wr). length (position (h (fst wr))) \<le> length (position (h (fst rr)))"
  shows "\<exists>h'. walker_step wr h = Inr h' \<and> same_shape h h'"
  unfolding walker_step_def
proof (rule for_each_total [where P = "same_shape h"])
  show "same_shape h h" by (rule same_shape_refl)
next
  fix rr t
  assume rr: "rr \<in> set (snd wr)" and t: "same_shape h t"
  then have "length (position (t (fst wr))) \<le> length (position (t (fst rr)))"
    using assms by (simp add: same_shape_def)
  from relation_step_total [where h = t and w = "fst wr" and rr = rr, OF this] t
  show "\<exists>t'. relation_step (fst wr) rr t = Inr t' \<and> same_shape h t'"
    by (blast intro: same_shape_trans)
qed

lemma walkers_loop_total:
  assumes "dims_ok sys h"
  shows "\<exists>h'. for_each walker_step (walkers sys) h = Inr h' \<and> same_shape h h'"
proof (rule for_each_total [where P = "same_shape h"])
  show "same_shape h h" by (rule same_shape_refl)
next
  fix wr t
  assume wr: "wr \<in> set (walkers sys)" and t: "same_shape h t"
  then have "\<forall>rr \<in> set (snd wr). length (position (t (fst wr))) \<le> length (position (t (fst rr)))"
    using assms by (simp add: same_shape_def dims_ok_def)
  from walker_step_total [where h = t and wr = wr, OF this] t
  show "\<exists>t'. walker_step wr t = Inr t' \<and> same_shape h t'"
    by (blast intro: same_shape_trans)
qed

lemma next_state_total:
  assumes "dims_ok sys h"
  shows "\<exists>h'. next_state sys h = Inr (h', get_current_state sys h') \<and> same_shape h h'"
  using walkers_loop_total [OF assms] by (auto simp: next_state_def)

lemma next_state_times_total:
  "dims_ok sys h \<Longrightarrow> \<exists>h'. next_state_times k sys h = Inr h' \<and> same_shape h h'"
proof (induction k arbitrary: h)
  case 0
  then show ?case by (simp add: same_shape_refl)
next
  case (Suc k)
  from next_state_total [OF Suc.prems] obtain h1
    where h1: "next_state sys h = Inr (h1, get_current_state sys h1)" "same_shape h h1"
    by blast
  from Suc.IH [OF dims_ok_shape [OF h1(2) Suc.prems]] h1 show ?case
    by (auto intro: same_shape_trans)
qed

lemma states_from_end: "snd (states_from k sys h) = next_state_times k sys h"
proof (induction k arbitrary: h)
  case 0
  then show ?case by simp
next
  case (Suc k)
  show ?case
  proof (cases "next_state sys h")
    case (Inl e)
    then show ?thesis by (simp add: Let_def)
  next
    case (Inr hs)
    then show ?thesis
      using Suc.IH [of "fst hs"] by (simp add: Let_def)
  qed
qed

lemma states_from_length:
  "dims_ok sys h \<Longrightarrow> length (fst (states_from k sys h)) = k"
proof (induction k arbitrary: h)
  case 0
  then show ?case by simp
next
  case (Suc k)
  from next_state_total [OF Suc.prems] obtain h1
    where h1: "next_state sys h = Inr (h1, get_current_state sys h1)" "same_shape h h1"
    by blast
  from Suc.IH [OF dims_ok_shape [OF h1(2) Suc.prems]] h1(1) show ?case
    by (simp add: Let_def)
qed

lemma states_from_nth:
  "dims_ok sys h \<Longrightarrow> j < k \<Longrightarrow>
   \<exists>hj. next_state_times j sys h = Inr hj \<and> same_shape h hj \<and>
        fst (states_from k sys h) ! j = get_current_state sys hj"
proof (induction k arbitrary: h j)
  case 0
  then show ?case by simp
next
  case (Suc k)
  from next_state_total [OF Suc.prems(1)] obtain h1
    where h1: "next_state sys h = Inr (h1, get_current_state sys h1)" "same_shape h h1"
    by blast
  show ?case
  proof (cases j)
    case 0
    then show ?thesis using h1(1) by (simp add: Let_def same_shape_refl)
  next
    case (Suc i)
    with Suc.prems have "i < k" by simp
    from Suc.IH [OF dims_ok_shape [OF h1(2) Suc.prems(1)] this] obtain hj
      where "next_state_times i sys h1 = Inr hj" "same_shape h1 hj"
        "fst (states_from k sys h1) ! i = get_current_state sys hj"
      by blast
    then show ?thesis
      using h1 Suc by (auto simp: Let_def intro: same_shape_trans)
  qed
qed

subsection \<open>Evaluation on concrete systems\<close>

lemma upt_3: "[0..<3] = [0, 1, 2]"
  by (simp add: upt_rec)

lemma enum3: "enumerate 0 [a, b, c] = [(0, a), (1, b), (2, c)]"
  by (simp add: enumerate_eq_zip upt_3)

lemma enum2: "enumerate 0 [a, b] = [(0, a), (1, b)]"
  by (simp add: enumerate_eq_zip upt_rec)

lemma rep3: "replicate 3 x = [x, x, x]"
  by (simp add: numeral_3_eq_3)

lemma rep2: "replicate 2 x = [x, x]"
  by (simp add: numeral_2_eq_2)

lemma upd2: "(x # y # z # zs)[2 := v] = x # y # v # zs"
  by (simp add: numeral_2_eq_2)

lemma triple: "length xs = 3 \<Longrightarrow> xs = [xs ! 0, xs ! 1, xs ! 2]"
  by (cases xs; cases "tl xs"; cases "tl (tl xs)") auto

lemmas run_defs =
  next_state_def walker_step_def relation_step_def axis_step_def getitem_def
  get_current_state_def WalkingSystem_init_def Walker_init_def returned_def

lemmas vec_defs =
  compute_3d_vectrices_def states_def state_step_def position_step_def coord_step_def
  close_axis_def enum3 enum2 rep3 rep2 upd2 Let_def

subsection \<open>Vectorization of three-dimensional systems\<close>

lemma nth3: "a < 3 \<Longrightarrow> a = 0 \<or> a = 1 \<or> a = (2::nat)"
  by arith

lemma map_upt_3: "map f [0..<3] = [f 0, f 1, f 2]"
  by (simp add: upt_3)

lemma position_step_3d:
  assumes p: "length p = 3" and r: "length ring = 3" and c: "curves_ok n cs" and i: "i < n"
  shows "\<exists>cs'. position_step n (i, p) (cs, ring) =
                  Inr (cs', map (\<lambda>a. ring ! a @ [p ! a]) [0..<3]) \<and> curves_ok n cs'"
proof -
  obtain x y z where p': "p = [x, y, z]" using triple [OF p] by blast
  obtain r0 r1 r2 where r': "ring = [r0, r1, r2]" using triple [OF r] by blast
  have len: "length cs = n" and "length (cs ! i) = 3"
    using c i by (simp_all add: curves_ok_def)
  then obtain c0 c1 c2 where c': "cs ! i = [c0, c1, c2]" using triple by blast
  have n0: "n \<noteq> 0" and imod: "i mod n = i" using i by simp_all
  have run: "position_step n (i, p) (cs, ring) =
          Inr (cs[i := [c0 @ [x], c1 @ [y], c2 @ [z]]], [r0 @ [x], r1 @ [y], r2 @ [z]])"
    using i len
    by (simp add: position_step_def coord_step_def getitem_def enum3 p' r' c' n0 imod upd2 Let_def)
  have "curves_ok n (cs[i := [c0 @ [x], c1 @ [y], c2 @ [z]]])"
    using c by (auto simp: curves_ok_def dest!: set_update_subset_insert [THEN subsetD])
  then show ?thesis
    using run by (simp add: map_upt_3 p' r')
qed

lemma positions_loop_3d:
  assumes "\<forall>p \<in> set ps. length p = 3" and "length ring = 3" and "curves_ok n cs"
    and "k + length ps \<le> n"
  shows "\<exists>cs'. for_each (position_step n) (enumerate k ps) (cs, ring) =
                  Inr (cs', map (\<lambda>a. ring ! a @ map (\<lambda>p. p ! a) ps) [0..<3]) \<and>
               curves_ok n cs'"
  using assms
proof (induction ps arbitrary: k cs ring)
  case Nil
  then show ?case using triple [of ring] by (simp add: map_upt_3)
next
  case (Cons p ps)
  let ?ring1 = "map (\<lambda>a. ring ! a @ [p ! a]) [0..<3]"
  from Cons.prems have "length p = 3" "k < n" by simp_all
  from position_step_3d [OF this(1) Cons.prems(2,3) this(2)] obtain cs1
    where s1: "position_step n (k, p) (cs, ring) = Inr (cs1, ?ring1)" and c1: "curves_ok n cs1"
    by blast
  have "\<forall>p \<in> set ps. length p = 3" "length ?ring1 = 3" "Suc k + length ps \<le> n"
    using Cons.prems by simp_all
  from Cons.IH [OF this(1,2) c1 this(3)] obtain cs2
    where s2: "for_each (position_step n) (enumerate (Suc k) ps) (cs1, ?ring1) =
                 Inr (cs2, map (\<lambda>a. ?ring1 ! a @ map (\<lambda>p. p ! a) ps) [0..<3])"
      and c2: "curves_ok n cs2"
    by blast
  have "map (\<lambda>a. ?ring1 ! a @ map (\<lambda>p. p ! a) ps) [0..<3] =
        map (\<lambda>a. ring ! a @ map (\<lambda>p. p ! a) (p # ps)) [0..<3]"
    by (simp add: map_upt_3)
  with s1 s2 c2 show ?case by simp
qed

lemma close_ring:
  assumes "length ring = 3" and "\<forall>ax \<in> set ring. ax \<noteq> []"
  shows "for_each close_axis [0..<length ring] ring = Inr (map (\<lambda>ax. ax @ [ax ! 0]) ring)"
proof -
  obtain r0 r1 r2 where r': "ring = [r0, r1, r2]" using triple [OF assms(1)] by blast
  with assms(2) have "r0 \<noteq> []" "r1 \<noteq> []" "r2 \<noteq> []" by simp_all
  then show ?thesis
    by (simp add: r' upt_3 close_axis_def getitem_def upd2)
qed

lemma state_step_3d:
  assumes "st \<noteq> []" and "length st = n" and "\<forall>p \<in> set st. length p = 3" and "curves_ok n cs"
  shows "\<exists>cs'. state_step n st (cs, rs) =
                  Inr (cs', rs @ [map (\<lambda>a. map (\<lambda>p. p ! a) st @ [st ! 0 ! a]) [0..<3]]) \<and>
               curves_ok n cs'"
proof -
  let ?ring = "map (\<lambda>a. replicate 3 [] ! a @ map (\<lambda>p. p ! a) st) [0..<3]"
  have "0 + length st \<le> n" using assms(2) by simp
  from positions_loop_3d [OF assms(3) _ assms(4) this, of "replicate 3 []"] obtain cs'
    where run: "for_each (position_step n) (enumerate 0 st) (cs, replicate 3 []) = Inr (cs', ?ring)"
      and ok: "curves_ok n cs'"
    by auto
  have ring: "?ring = map (\<lambda>a. map (\<lambda>p. p ! a) st) [0..<3]"
    by (simp add: map_upt_3 rep3)
  have "length ?ring = 3" "\<forall>ax \<in> set ?ring. ax \<noteq> []"
    using assms(1) by (simp_all add: ring)
  from close_ring [OF this]
  have "for_each close_axis [0..<length ?ring] ?ring = Inr (map (\<lambda>ax. ax @ [ax ! 0]) ?ring)" .
  moreover have "map (\<lambda>ax. ax @ [ax ! 0]) ?ring =
                 map (\<lambda>a. map (\<lambda>p. p ! a) st @ [st ! 0 ! a]) [0..<3]"
    using assms(1) by (simp add: ring map_upt_3)
  ultimately show ?thesis
    using run ok by (simp add: state_step_def Let_def)
qed

lemma closed_ring_ok:
  assumes "st \<noteq> []" and "length st = n"
  shows "ring_ok n (map (\<lambda>a. map (\<lambda>p. p ! a) st @ [st ! 0 ! a]) [0..<3])"
  using assms by (auto simp: ring_ok_def map_upt_3 nth_append dest!: nth3)

lemma state_step_rings_length:
  "for_each (state_step n) sts cr = Inr cr' \<Longrightarrow> length (snd cr') = length (snd cr) + length sts"
proof (induction sts arbitrary: cr)
  case Nil
  then show ?case by simp
next
  case (Cons st sts)
  then obtain cr1 where s: "state_step n st cr = Inr cr1" and r: "for_each (state_step n) sts cr1 = Inr cr'"
    by (auto split: sum.splits)
  from s have "length (snd cr1) = Suc (length (snd cr))"
    by (auto simp: state_step_def Let_def split: sum.splits)
  with Cons.IH [OF r] show ?case by simp
qed

lemma states_loop_3d:
  assumes "n \<noteq> 0" and "\<forall>st \<in> set sts. length st = n \<and> (\<forall>p \<in> set st. length p = 3)"
    and "curves_ok n cs" and "\<forall>ring \<in> set rs. ring_ok n ring"
  shows "\<exists>cr. for_each (state_step n) sts (cs, rs) = Inr cr \<and>
              curves_ok n (fst cr) \<and> (\<forall>ring \<in> set (snd cr). ring_ok n ring)"
proof (rule for_each_total
         [where P = "\<lambda>cr. curves_ok n (fst cr) \<and> (\<forall>ring \<in> set (snd cr). ring_ok n ring)"])
  show "curves_ok n (fst (cs, rs)) \<and> (\<forall>ring \<in> set (snd (cs, rs)). ring_ok n ring)"
    using assms(3,4) by simp
next
  fix st cr
  assume st: "st \<in> set sts"
    and cr: "curves_ok n (fst cr) \<and> (\<forall>ring \<in> set (snd cr). ring_ok n ring)"
  from st assms(1,2) have a: "st \<noteq> []" "length st = n" "\<forall>p \<in> set st. length p = 3"
    by auto
  from state_step_3d [OF a, of "fst cr" "snd cr"] cr obtain cs'
    where "state_step n st cr =
             Inr (cs', snd cr @ [map (\<lambda>a. map (\<lambda>p. p ! a) st @ [st ! 0 ! a]) [0..<3]])"
      and "curves_ok n cs'"
    by auto
  then show "\<exists>cr'. state_step n st cr = Inr cr' \<and>
               curves_ok n (fst cr') \<and> (\<forall>ring \<in> set (snd cr'). ring_ok n ring)"
    using cr closed_ring_ok [OF a(1,2)] by auto
qed

lemma states_3d:
  assumes "dims_3 sys h" and "st \<in> set (fst (states sys h))"
  shows "length st = length (walkers sys) \<and> (\<forall>p \<in> set st. length p = 3)"
proof -
  from assms(2) obtain j where j: "j < length (fst (states sys h))" "st = fst (states sys h) ! j"
    by (auto simp: in_set_conv_nth)
  have ok: "dims_ok sys h" using assms(1) by (rule dims_3_ok)
  from j(1) have "j < nat (iterations sys)"
    using states_from_length [OF ok] by (simp add: states_def)
  from states_from_nth [OF ok this] obtain hj
    where "same_shape h hj" "st = get_current_state sys hj"
    using j(2) by (auto simp: states_def)
  then show ?thesis
    using dims_3_shape [OF _ assms(1), of hj] by (auto simp: get_current_state_def dims_3_def)
qed

lemma compute_3d_vectrices_total:
  assumes "walkers sys \<noteq> []" and "dims_3 sys h"
  shows "\<exists>h' cs rs. compute_3d_vectrices sys h =
            Inr ((h', sys\<lparr>priv_curves := Some cs, priv_rings := Some rs\<rparr>), (cs, rs)) \<and>
          length rs = nat (iterations sys) \<and>
          (\<forall>ring \<in> set rs. ring_ok (length (walkers sys)) ring)"
proof -
  let ?n = "length (walkers sys)"
  have ok: "dims_ok sys h" using assms(2) by (rule dims_3_ok)
  have n0: "?n \<noteq> 0" using assms(1) by simp
  have c0: "curves_ok ?n (replicate ?n (replicate 3 []))"
    by (simp add: curves_ok_def)
  have sts: "\<forall>st \<in> set (fst (states sys h)). length st = ?n \<and> (\<forall>p \<in> set st. length p = 3)"
    using states_3d [OF assms(2)] by blast
  from states_loop_3d [OF n0 sts c0, of "[]"] obtain cr
    where run: "for_each (state_step ?n) (fst (states sys h)) (replicate ?n (replicate 3 []), []) = Inr cr"
      and rings: "\<forall>ring \<in> set (snd cr). ring_ok ?n ring"
    by auto
  from state_step_rings_length [OF run] have len: "length (snd cr) = nat (iterations sys)"
    using states_from_length [OF ok] by (simp add: states_def)
  from next_state_times_total [OF ok] obtain h'
    where "snd (states sys h) = Inr h'"
    by (auto simp: states_def states_from_end)
  then have "compute_3d_vectrices sys h =
      Inr ((h', sys\<lparr>priv_curves := Some (fst cr), priv_rings := Some (snd cr)\<rparr>), (fst cr, snd cr))"
    using run by (simp add: compute_3d_vectrices_def Let_def)
  then show ?thesis using len rings by blast
qed

lemma compute_3d_vectrices_empty:
  assumes "walkers sys = []" and "1 \<le> iterations sys"
  shows "compute_3d_vectrices sys h = Inl IndexError"
proof -
  from assms(2) obtain k where k: "nat (iterations sys) = Suc k"
    by (cases "nat (iterations sys)") auto
  have "next_state sys h = Inr (h, [])"
    using assms(1) by (simp add: next_state_def get_current_state_def)
  then have "fst (states sys h) = [] # fst (states_from k sys h)"
    using assms(1) by (simp add: states_def k Let_def get_current_state_def)
  moreover have "state_step 0 [] cr = Inl IndexError" for cr
    by (simp add: state_step_def Let_def enumerate_eq_zip rep3 upt_3 close_axis_def getitem_def)
  ultimately show ?thesis
    using assms(1) by (simp add: compute_3d_vectrices_def Let_def)
qed

subsection \<open>One step of two walkers\<close>

text \<open>
  C1 (as stated): from A at (0,0,0) and B at (10,0,0) with both coefficients 0.5, one
  call of \<open>next_state\<close> gives (5,0,0) for both walkers.  The code does not do this: A is
  updated in place first, and the update of B reads the new position of A.
\<close>

theorem C1_simultaneous_counterexample:
  "returned (next_state two_system two_store) \<noteq> Inr [[5, 0, 0], [5, 0, 0]]"
  by (simp add: run_defs two_system_def two_store_def blank_def upt_3)

text \<open>
  C1 (amended): the walker that comes first in the dict moves to the midpoint (5,0,0),
  and the second one moves halfway towards that new position: A = (5,0,0) and
  B = (7.5,0,0) when A is first; B = (5,0,0) and A = (2.5,0,0) when B is first.
\<close>

theorem C1_sequential_update:
  "returned (next_state two_system two_store) = Inr [[5, 0, 0], [15/2, 0, 0]]
   \<and> returned (next_state two_system_rev two_store) = Inr [[5, 0, 0], [5/2, 0, 0]]"
  by (simp add: run_defs two_system_def two_system_rev_def two_store_def blank_def upt_3)

subsection \<open>Start positions\<close>

text \<open>
  C10: whatever sequence of calls of \<open>next_state\<close>, \<open>states\<close> and
  \<open>compute_3d_vectrices\<close> is made, the \<open>start_position\<close> of every walker is the same
  afterwards as before.
\<close>

theorem C10_start_position_unchanged:
  assumes "for_each do_call cs (h, sys) = Inr (h', sys')"
  shows "start_position (h' w) = start_position (h w)"
  using calls_shape [OF assms] by (simp add: same_shape_def)

theorem C10_start_position_unchanged_witness:
  "\<exists>h' sys'. for_each do_call [Call_next_state, Call_compute_3d_vectrices, Call_states]
                 (two_store, two_system) = Inr (h', sys') \<and>
              start_position (h' 0) = [0, 0, 0] \<and> start_position (h' 1) = [10, 0, 0] \<and>
              position (h' 1) \<noteq> [10, 0, 0]"
proof -
  obtain h' sys' where run:
    "for_each do_call [Call_next_state, Call_compute_3d_vectrices, Call_states]
       (two_store, two_system) = Inr (h', sys')"
    and moved: "position (h' 1) \<noteq> [10, 0, 0]"
    by (simp add: vec_defs run_defs two_system_def two_store_def blank_def upt_3)
  have "start_position (h' 0) = start_position (two_store 0)"
       "start_position (h' 1) = start_position (two_store 1)"
    using C10_start_position_unchanged [OF run] by simp_all
  then show ?thesis
    using run moved by (simp add: two_store_def Walker_init_def)
qed

subsection \<open>The curves and rings properties\<close>

text \<open>
  C6: on a system as the constructor makes it, and after any calls other than
  \<open>compute_3d_vectrices\<close>, reading \<open>curves\<close> or \<open>rings\<close> raises ValueError; when
  \<open>compute_3d_vectrices\<close> has returned, reading them gives the data it returned.
\<close>

theorem C6_curves_rings_guard:
  "(Call_compute_3d_vectrices \<notin> set cs \<longrightarrow>
      for_each do_call cs (h, WalkingSystem_init ws n cm) = Inr (h1, sys1) \<longrightarrow>
      curves sys1 = Inl ValueError \<and> rings sys1 = Inl ValueError) \<and>
   (compute_3d_vectrices sys h = Inr ((h', sys'), (c, r)) \<longrightarrow>
      curves sys' = Inr c \<and> rings sys' = Inr r)"
proof (intro conjI impI)
  assume "Call_compute_3d_vectrices \<notin> set cs"
    and "for_each do_call cs (h, WalkingSystem_init ws n cm) = Inr (h1, sys1)"
  then have sys1: "sys1 = WalkingSystem_init ws n cm"
    using calls_keep_system by fastforce
  show "curves sys1 = Inl ValueError" "rings sys1 = Inl ValueError"
    by (simp_all add: sys1 curves_def rings_def WalkingSystem_init_def)
next
  assume "compute_3d_vectrices sys h = Inr ((h', sys'), (c, r))"
  then have "sys' = sys\<lparr>priv_curves := Some c, priv_rings := Some r\<rparr>"
    by (auto simp: compute_3d_vectrices_def Let_def split: sum.splits)
  then show "curves sys' = Inr c" "rings sys' = Inr r"
    by (simp_all add: curves_def rings_def)
qed

theorem C6_curves_rings_guard_witness:
  "(\<exists>h1 sys1. for_each do_call [Call_next_state, Call_states] (two_store, two_system) = Inr (h1, sys1) \<and>
       curves sys1 = Inl ValueError \<and> rings sys1 = Inl ValueError) \<and>
   (\<exists>h' sys'. compute_3d_vectrices two_system two_store =
       Inr ((h', sys'), ([[[0], [0], [0]], [[10], [0], [0]]], [[[0, 10, 0], [0, 0, 0], [0, 0, 0]]])) \<and>
       curves sys' = Inr [[[0], [0], [0]], [[10], [0], [0]]] \<and>
       rings sys' = Inr [[[0, 10, 0], [0, 0, 0], [0, 0, 0]]])"
proof -
  obtain h1 sys1 where before:
    "for_each do_call [Call_next_state, Call_states]
       (two_store, WalkingSystem_init [(0, [(1, 1/2)]), (1, [(0, 1/2)])] 1 black) = Inr (h1, sys1)"
    by (simp add: vec_defs run_defs two_store_def blank_def upt_3)
  obtain h' sys' where after:
    "compute_3d_vectrices two_system two_store =
       Inr ((h', sys'), ([[[0], [0], [0]], [[10], [0], [0]]], [[[0, 10, 0], [0, 0, 0], [0, 0, 0]]]))"
    by (simp add: vec_defs run_defs two_system_def two_store_def blank_def upt_3)
  show ?thesis
    using C6_curves_rings_guard
            [of "[Call_next_state, Call_states]" two_store "[(0, [(1, 1/2)]), (1, [(0, 1/2)])]"
                1 black h1 sys1 two_system h' sys'
                "[[[0], [0], [0]], [[10], [0], [0]]]" "[[[0, 10, 0], [0, 0, 0], [0, 0, 0]]]"]
          before after
    by (simp add: two_system_def)
qed

subsection \<open>The states generator\<close>



subsection \<open>Rings\<close>

text \<open>
  C3: for a system with at least one walker whose positions are three-dimensional, and
  for any iteration count, \<open>compute_3d_vectrices\<close> returns, with one ring per iteration,
  and every ring it returns has, on each of the three axes, \<open>num_walkers + 1\<close>
  coordinates of which the first equals the last.
\<close>

theorem C3_rings_closed:
  assumes "walkers sys \<noteq> []" and "dims_3 sys h"
  shows "\<exists>h' sys' cs rs.
           compute_3d_vectrices sys h = Inr ((h', sys'), (cs, rs)) \<and>
           length rs = nat (iterations sys) \<and>
           (\<forall>ring \<in> set rs. \<forall>axis < 3.
              length (ring ! axis) = length (walkers sys) + 1 \<and>
              ring ! axis ! 0 = last (ring ! axis))"
  using compute_3d_vectrices_total [OF assms] unfolding ring_ok_def by blast

theorem C3_rings_closed_witness:
  "walkers two_system \<noteq> [] \<and> dims_3 two_system two_store \<and>
   (\<exists>h' sys' cs rs.
      compute_3d_vectrices two_system two_store = Inr ((h', sys'), (cs, rs)) \<and>
      length rs = 1 \<and>
      (\<forall>ring \<in> set rs. \<forall>axis < 3.
         length (ring ! axis) = 3 \<and> ring ! axis ! 0 = last (ring ! axis)))"
proof -
  have w: "walkers two_system \<noteq> []"
    by (simp add: two_system_def WalkingSystem_init_def)
  have d: "dims_3 two_system two_store"
    by (simp add: dims_3_def two_system_def WalkingSystem_init_def two_store_def blank_def
                  Walker_init_def)
  have "length (walkers two_system) + 1 = 3" "nat (iterations two_system) = 1"
    by (simp_all add: two_system_def WalkingSystem_init_def)
  with C3_rings_closed [OF w d] w d show ?thesis by simp
qed

text \<open>
  C9: with at least one iteration, \<open>compute_3d_vectrices\<close> on a system without walkers
  raises IndexError, from \<open>ring[i][0]\<close> on the empty axis list of the first ring; with
  at least one (three-dimensional) walker it returns.
\<close>

theorem C9_needs_a_walker:
  assumes "1 \<le> iterations sys"
  shows "(walkers sys = [] \<longrightarrow> compute_3d_vectrices sys h = Inl IndexError) \<and>
         (walkers sys \<noteq> [] \<and> dims_3 sys h \<longrightarrow> (\<exists>r. compute_3d_vectrices sys h = Inr r))"
  using compute_3d_vectrices_empty [OF _ assms] compute_3d_vectrices_total [of sys h]
  by blast

theorem C9_needs_a_walker_witness:
  "1 \<le> iterations empty_system \<and> walkers empty_system = [] \<and>
   compute_3d_vectrices empty_system blank = Inl IndexError \<and>
   1 \<le> iterations two_system \<and> walkers two_system \<noteq> [] \<and> dims_3 two_system two_store \<and>
   (\<exists>r. compute_3d_vectrices two_system two_store = Inr r)"
proof -
  have e: "1 \<le> iterations empty_system" "walkers empty_system = []"
    by (simp_all add: empty_system_def WalkingSystem_init_def)
  have t: "1 \<le> iterations two_system" "walkers two_system \<noteq> []"
    by (simp_all add: two_system_def WalkingSystem_init_def)
  have d: "dims_3 two_system two_store"
    by (simp add: dims_3_def two_system_def WalkingSystem_init_def two_store_def blank_def
                  Walker_init_def)
  show ?thesis
    using C9_needs_a_walker [OF e(1), of blank] C9_needs_a_walker [OF t(1), of two_store] e t d
    by simp
qed

end
